theory Spec2Isabelle
  imports Main "HOL-Library.Word"
begin

unbundle bit_operations_syntax

section \<open>Python values and exceptions\<close>

text \<open>
  The values that reach the storage layer. A Python \<open>str\<close> is carried by its UTF-8
  encoding and a \<open>bytes\<close> object by its bytes, both as a \<open>string\<close> (a list of 8-bit
  characters); the constructor keeps the two Python types apart, as \<open>'foo' == b'foo'\<close>
  is false in Python. A \<open>float\<close> is carried by the text \<open>repr\<close> gives for it, which is
  all the storage layer ever derives from a float. \<open>PyNone\<close> and \<open>PyBool\<close> stand for
  the values the annotations of the source do not admit.
\<close>

type_synonym bytes = string

datatype pyval =
    PyNone
  | PyBool bool
  | PyInt int
  | PyFloat string
  | PyStr string
  | PyBytes bytes

text \<open>
  The exceptions of the model: \<open>ResponseError\<close> is an error reply of the Redis server
  (wrong kind of value at a key, not an integer, overflow), \<open>DataError\<close> is raised by the
  Redis client for a value it cannot encode, \<open>RequestException\<close> comes from the HTTP
  library and carries its description; the others are Python's own.
\<close>

datatype error =
    ResponseError
  | DataError
  | TypeError
  | ValueError
  | AttributeError
  | UnicodeDecodeError
  | RequestException string

section \<open>Decimal text\<close>

definition digit_char :: "nat \<Rightarrow> char" where
  "digit_char d = char_of (48 + d)"

definition is_digit :: "char \<Rightarrow> bool" where
  "is_digit c = (48 \<le> (of_char c :: nat) \<and> (of_char c :: nat) \<le> 57)"

definition digit_val :: "char \<Rightarrow> nat" where
  "digit_val c = of_char c - 48"

fun str_nat :: "nat \<Rightarrow> string" where
  "str_nat n = (if n < 10 then [digit_char n] else str_nat (n div 10) @ [digit_char (n mod 10)])"

declare str_nat.simps [simp del]

text \<open>Python's \<open>str\<close> of an \<open>int\<close>, also the text Redis keeps for an integer value.\<close>

definition str_int :: "int \<Rightarrow> string" where
  "str_int i = (if i < 0 then CHR ''-'' # str_nat (nat (- i)) else str_nat (nat i))"

definition nat_of_digits :: "string \<Rightarrow> nat" where
  "nat_of_digits ds = foldl (\<lambda>a c. 10 * a + digit_val c) 0 ds"

definition canonical_digits :: "string \<Rightarrow> bool" where
  "canonical_digits ds = (ds \<noteq> [] \<and> list_all is_digit ds \<and> hd ds \<noteq> CHR ''0'')"

text \<open>
  Modelled from the spec: the integer a Redis server reads from a string value (its
  \<open>string2ll\<close>): \<open>0\<close>, or an optional minus sign and digits without a leading zero,
  within the signed 64-bit range; anything else is not an integer.
\<close>

definition string2ll :: "bytes \<Rightarrow> int option" where
  "string2ll s =
     (if s = ''0'' then Some 0
      else case s of
          [] \<Rightarrow> None
        | c # ds \<Rightarrow>
            if c = CHR ''-'' then
              (if canonical_digits ds \<and> int (nat_of_digits ds) \<le> 2 ^ 63
               then Some (- int (nat_of_digits ds)) else None)
            else
              (if canonical_digits s \<and> int (nat_of_digits s) < 2 ^ 63
               then Some (int (nat_of_digits s)) else None))"

section \<open>UTF-8\<close>

definition cont_byte :: "char \<Rightarrow> bool" where
  "cont_byte c = (128 \<le> (of_char c :: nat) \<and> (of_char c :: nat) \<le> 191)"

text \<open>Well-formed UTF-8, as the strict decoder of Python accepts it.\<close>

fun utf8_valid :: "bytes \<Rightarrow> bool" where
  "utf8_valid [] = True"
| "utf8_valid (c # cs) =
     (let b = (of_char c :: nat) in
      if b < 128 then utf8_valid cs
      else if 194 \<le> b \<and> b \<le> 223 then
        (case cs of c1 # r \<Rightarrow> cont_byte c1 \<and> utf8_valid r | _ \<Rightarrow> False)
      else if 224 \<le> b \<and> b \<le> 239 then
        (case cs of
           c1 # c2 # r \<Rightarrow>
             (let b1 = (of_char c1 :: nat) in
              (if b = 224 then 160 \<le> b1 \<and> b1 \<le> 191
               else if b = 237 then 128 \<le> b1 \<and> b1 \<le> 159
               else cont_byte c1)
              \<and> cont_byte c2 \<and> utf8_valid r)
         | _ \<Rightarrow> False)
      else if 240 \<le> b \<and> b \<le> 244 then
        (case cs of
           c1 # c2 # c3 # r \<Rightarrow>
             (let b1 = (of_char c1 :: nat) in
              (if b = 240 then 144 \<le> b1 \<and> b1 \<le> 191
               else if b = 244 then 128 \<le> b1 \<and> b1 \<le> 143
               else cont_byte c1)
              \<and> cont_byte c2 \<and> cont_byte c3 \<and> utf8_valid r)
         | _ \<Rightarrow> False)
      else False)"

text \<open>\<open>b.decode('utf-8')\<close>: the text whose encoding \<open>b\<close> is, or \<open>UnicodeDecodeError\<close>.\<close>

definition utf8_decode :: "bytes \<Rightarrow> error + string" where
  "utf8_decode b = (if utf8_valid b then Inr b else Inl UnicodeDecodeError)"

section \<open>The Redis store and its client\<close>

text \<open>
  Modelled from the spec: the external key-value store (the spec's KeyValueClient). A key
  holds a byte string or a list of byte strings, and may carry a time to live in seconds.
  The commands below are the ones the source sends, with the replies of a Redis server and
  the value encoding of its Python client; the store is taken to be reachable.
\<close>

datatype rvalue = RString bytes | RList "bytes list"

record redis =
  db :: "string \<rightharpoonup> rvalue"
  ttl :: "string \<rightharpoonup> nat"

text \<open>
  Modelled from the spec: how the client turns an argument into bytes: bytes as they are,
  text as UTF-8, a number as its \<open>repr\<close>; \<open>DataError\<close> for a \<open>bool\<close> and for any other
  type.
\<close>

fun redis_encode :: "pyval \<Rightarrow> error + bytes" where
  "redis_encode (PyBytes b) = Inr b"
| "redis_encode (PyBool _) = Inl DataError"
| "redis_encode (PyInt i) = Inr (str_int i)"
| "redis_encode (PyFloat f) = Inr f"
| "redis_encode (PyStr s) = Inr s"
| "redis_encode PyNone = Inl DataError"

text \<open>Modelled from the spec: \<open>FLUSHDB\<close> empties the database.\<close>

definition redis_flushdb :: "redis \<Rightarrow> redis" where
  "redis_flushdb r = r\<lparr>db := Map.empty, ttl := Map.empty\<rparr>"

text \<open>Modelled from the spec: \<open>SET key value\<close> overwrites the key and drops its time to live.\<close>

definition redis_set :: "string \<Rightarrow> pyval \<Rightarrow> redis \<Rightarrow> error + redis" where
  "redis_set k v r =
     (case redis_encode v of
        Inl e \<Rightarrow> Inl e
      | Inr b \<Rightarrow> Inr (r\<lparr>db := (db r)(k \<mapsto> RString b), ttl := (ttl r)(k := None)\<rparr>))"

text \<open>Modelled from the spec: \<open>SETEX key seconds value\<close>.\<close>

definition redis_setex :: "string \<Rightarrow> nat \<Rightarrow> pyval \<Rightarrow> redis \<Rightarrow> error + redis" where
  "redis_setex k secs v r =
     (case redis_encode v of
        Inl e \<Rightarrow> Inl e
      | Inr b \<Rightarrow>
          if secs = 0 then Inl ResponseError
          else Inr (r\<lparr>db := (db r)(k \<mapsto> RString b), ttl := (ttl r)(k \<mapsto> secs)\<rparr>))"

text \<open>Modelled from the spec: \<open>GET key\<close>: the bytes, nil for an absent key.\<close>

definition redis_get :: "string \<Rightarrow> redis \<Rightarrow> error + bytes option" where
  "redis_get k r =
     (case db r k of
        None \<Rightarrow> Inr None
      | Some (RString b) \<Rightarrow> Inr (Some b)
      | Some (RList _) \<Rightarrow> Inl ResponseError)"

text \<open>Modelled from the spec: \<open>EXISTS key\<close>: the number of the given keys that exist.\<close>

definition redis_exists :: "string \<Rightarrow> redis \<Rightarrow> int" where
  "redis_exists k r = (case db r k of None \<Rightarrow> 0 | Some _ \<Rightarrow> 1)"

text \<open>
  Modelled from the spec: \<open>INCR key\<close>: an absent key counts as 0; the new value is kept
  as decimal text and returned; a value that is not a 64-bit integer, or that would
  overflow, is an error and nothing changes.
\<close>

definition redis_int_value :: "string \<Rightarrow> redis \<Rightarrow> error + int" where
  "redis_int_value k r =
     (case db r k of
        None \<Rightarrow> Inr 0
      | Some (RList _) \<Rightarrow> Inl ResponseError
      | Some (RString b) \<Rightarrow>
          (case string2ll b of None \<Rightarrow> Inl ResponseError | Some n \<Rightarrow> Inr n))"

definition redis_incr :: "string \<Rightarrow> redis \<Rightarrow> error + (int \<times> redis)" where
  "redis_incr k r =
     (case redis_int_value k r of
        Inl e \<Rightarrow> Inl e
      | Inr n \<Rightarrow>
          if n = 2 ^ 63 - 1 then Inl ResponseError
          else Inr (n + 1, r\<lparr>db := (db r)(k \<mapsto> RString (str_int (n + 1)))\<rparr>))"

text \<open>Modelled from the spec: \<open>RPUSH key value\<close> appends to the list at the key, creating it.\<close>

definition redis_rpush :: "string \<Rightarrow> pyval \<Rightarrow> redis \<Rightarrow> error + redis" where
  "redis_rpush k v r =
     (case redis_encode v of
        Inl e \<Rightarrow> Inl e
      | Inr b \<Rightarrow>
          (case db r k of
             None \<Rightarrow> Inr (r\<lparr>db := (db r)(k \<mapsto> RList [b])\<rparr>)
           | Some (RList xs) \<Rightarrow> Inr (r\<lparr>db := (db r)(k \<mapsto> RList (xs @ [b]))\<rparr>)
           | Some (RString _) \<Rightarrow> Inl ResponseError))"

text \<open>
  Modelled from the spec: \<open>LRANGE key start stop\<close>, both ends inclusive, negative
  indices counting from the end; an absent key is the empty list.
\<close>

definition list_range :: "'a list \<Rightarrow> int \<Rightarrow> int \<Rightarrow> 'a list" where
  "list_range xs start stop =
     (let n = int (length xs);
          s = (if start < 0 then max (n + start) 0 else start);
          e = (if stop < 0 then n + stop else min stop (n - 1))
      in if s > e \<or> s \<ge> n then [] else take (nat (e - s + 1)) (drop (nat s) xs))"

definition redis_lrange :: "string \<Rightarrow> int \<Rightarrow> int \<Rightarrow> redis \<Rightarrow> error + bytes list" where
  "redis_lrange k start stop r =
     (case db r k of
        None \<Rightarrow> Inr []
      | Some (RList xs) \<Rightarrow> Inr (list_range xs start stop)
      | Some (RString _) \<Rightarrow> Inl ResponseError)"

section \<open>Identifiers: \<open>uuid.uuid4\<close> and its text\<close>

text \<open>
  \<open>uuid4\<close> draws 128 random bits (the argument) and sets the variant and version bits;
  \<open>str\<close> of the identifier is its 32 hexadecimal digits in groups of 8, 4, 4, 4 and 12.
\<close>

definition uuid4 :: "128 word \<Rightarrow> 128 word" where
  "uuid4 rnd =
     (((rnd AND NOT (push_bit 48 0xc000)) OR push_bit 48 0x8000)
        AND NOT (push_bit 64 0xf000)) OR push_bit 76 4"

definition hex_char :: "nat \<Rightarrow> char" where
  "hex_char d = (if d < 10 then char_of (48 + d) else char_of (87 + d))"

definition hex32 :: "128 word \<Rightarrow> string" where
  "hex32 u = map (\<lambda>i. hex_char (unat (drop_bit (4 * (31 - i)) u AND 15))) [0..<32]"

definition slice :: "'a list \<Rightarrow> nat \<Rightarrow> nat \<Rightarrow> 'a list" where
  "slice xs i j = take (j - i) (drop i xs)"

definition uuid_str :: "128 word \<Rightarrow> string" where
  "uuid_str u =
     (let hex = hex32 u
      in slice hex 0 8 @ ''-'' @ slice hex 8 12 @ ''-'' @ slice hex 12 16 @ ''-''
           @ slice hex 16 20 @ ''-'' @ drop 20 hex)"

section \<open>exercise.py: call instrumentation\<close>

text \<open>
  An object is known by its \<open>_redis\<close> attribute: missing, something that is not a Redis
  client, or a Redis client. Every client talks to the same store, which is passed
  explicitly. A method takes the object, the positional and the keyword arguments and the
  store, and returns its result or the exception it raised, with the store it leaves.
  A function object carries its \<open>__qualname__\<close>, which \<open>functools.wraps\<close> copies to the
  wrapper.
\<close>

datatype redis_attr = NoAttr | NotRedis | RedisClient

record pyobj =
  self_redis :: redis_attr

type_synonym kwargs = "(string \<times> pyval) list"

type_synonym pymethod = "pyobj \<Rightarrow> pyval list \<Rightarrow> kwargs \<Rightarrow> redis \<Rightarrow> (error + pyval) \<times> redis"

record pyfunc =
  qualname :: string
  call :: pymethod

definition count_calls :: "pyfunc \<Rightarrow> pyfunc" where
  "count_calls method =
     \<lparr>qualname = qualname method,
      call = (\<lambda>self args kwargs r.
        case self_redis self of
          NoAttr \<Rightarrow> (Inl AttributeError, r)
        | NotRedis \<Rightarrow> call method self args kwargs r
        | RedisClient \<Rightarrow>
            (case redis_incr (qualname method) r of
               Inl e \<Rightarrow> (Inl e, r)
             | Inr (n, r1) \<Rightarrow> call method self args kwargs r1))\<rparr>"

text \<open>
  \<open>str(args)\<close> of the tuple of positional arguments; \<open>rp\<close> is Python's \<open>repr\<close> of a
  value, a parameter of the model.
\<close>

fun join :: "string \<Rightarrow> string list \<Rightarrow> string" where
  "join sep [] = []"
| "join sep [x] = x"
| "join sep (x # y # ys) = x @ sep @ join sep (y # ys)"

definition str_tuple :: "(pyval \<Rightarrow> string) \<Rightarrow> pyval list \<Rightarrow> string" where
  "str_tuple rp args =
     (case args of
        [a] \<Rightarrow> ''('' @ rp a @ '',)''
      | _ \<Rightarrow> ''('' @ join '', '' (map rp args) @ '')'')"

definition call_history :: "(pyval \<Rightarrow> string) \<Rightarrow> pyfunc \<Rightarrow> pyfunc" where
  "call_history rp method =
     \<lparr>qualname = qualname method,
      call = (\<lambda>self args kwargs r.
        let inputs = qualname method @ '':inputs'';
            outputs = qualname method @ '':outputs''
        in case self_redis self of
             NoAttr \<Rightarrow> (Inl AttributeError, r)
           | NotRedis \<Rightarrow> call method self args kwargs r
           | RedisClient \<Rightarrow>
               (case redis_rpush inputs (PyStr (str_tuple rp args)) r of
                  Inl e \<Rightarrow> (Inl e, r)
                | Inr r1 \<Rightarrow>
                    (case call method self args kwargs r1 of
                       (Inl e, r2) \<Rightarrow> (Inl e, r2)
                     | (Inr method_return, r2) \<Rightarrow>
                         (case redis_rpush outputs method_return r2 of
                            Inl e \<Rightarrow> (Inl e, r2)
                          | Inr r3 \<Rightarrow> (Inr method_return, r3)))))\<rparr>"

section \<open>exercise.py: replay\<close>

text \<open>
  What \<open>replay\<close> can be given: \<open>None\<close>, a function that is not bound to an object (no
  \<open>__self__\<close>), or a method bound to an object. The printed lines are appended to the
  output. \<open>int\<close> of a byte string is a parameter \<open>pint\<close> of the model (\<open>None\<close> where
  Python raises \<open>ValueError\<close>); \<open>int(None)\<close> is a \<open>TypeError\<close>.
\<close>

datatype callable = NoneRef | Function string | BoundMethod pyobj string

fun py_int :: "(bytes \<Rightarrow> int option) \<Rightarrow> bytes option \<Rightarrow> error + int" where
  "py_int pint None = Inl TypeError"
| "py_int pint (Some b) = (case pint b of None \<Rightarrow> Inl ValueError | Some i \<Rightarrow> Inr i)"

fun replay_lines ::
  "(pyval \<Rightarrow> string) \<Rightarrow> string \<Rightarrow> (bytes \<times> bytes) list \<Rightarrow> string list
     \<Rightarrow> (error + unit) \<times> string list" where
  "replay_lines rp function_name [] out = (Inr (), out)"
| "replay_lines rp function_name ((function_input, function_output) # rest) out =
     (case utf8_decode function_input of
        Inl e \<Rightarrow> (Inl e, out)
      | Inr s \<Rightarrow>
          replay_lines rp function_name rest
            (out @ [function_name @ ''(*'' @ s @ '') -> '' @ rp (PyBytes function_output)]))"

definition replay ::
  "(bytes \<Rightarrow> int option) \<Rightarrow> (pyval \<Rightarrow> string) \<Rightarrow> callable \<Rightarrow> redis \<Rightarrow> string list
     \<Rightarrow> (error + unit) \<times> redis \<times> string list" where
  "replay pint rp fn r out =
     (case fn of
        NoneRef \<Rightarrow> (Inr (), r, out)
      | Function _ \<Rightarrow> (Inr (), r, out)
      | BoundMethod owner function_name \<Rightarrow>
          if self_redis owner \<noteq> RedisClient then (Inr (), r, out)
          else
            let inputs = function_name @ '':inputs'';
                outputs = function_name @ '':outputs''
            in case (if redis_exists function_name r \<noteq> 0
                     then (case redis_get function_name r of
                             Inl e \<Rightarrow> Inl e
                           | Inr v \<Rightarrow> py_int pint v)
                     else Inr 0) of
                 Inl e \<Rightarrow> (Inl e, r, out)
               | Inr function_call_count \<Rightarrow>
                   let out1 = out @ [function_name @ '' was called ''
                                       @ str_int function_call_count @ '' times:'']
                   in case redis_lrange inputs 0 (- 1) r of
                        Inl e \<Rightarrow> (Inl e, r, out1)
                      | Inr function_inputs \<Rightarrow>
                          (case redis_lrange outputs 0 (- 1) r of
                             Inl e \<Rightarrow> (Inl e, r, out1)
                           | Inr function_outputs \<Rightarrow>
                               (case replay_lines rp function_name
                                       (zip function_inputs function_outputs) out1 of
                                  (res, out2) \<Rightarrow> (res, r, out2))))"

section \<open>exercise.py: the Cache class\<close>

text \<open>\<open>Cache.__init__\<close>: a new client, and the database flushed.\<close>

definition Cache_init :: "redis \<Rightarrow> pyobj \<times> redis" where
  "Cache_init r = (\<lparr>self_redis = RedisClient\<rparr>, redis_flushdb r)"

text \<open>
  Binding the arguments of a call to the one parameter \<open>data\<close> of \<open>store\<close>: one positional
  argument, or the keyword \<open>data\<close>; any other call is a \<open>TypeError\<close>.
\<close>

fun bind_data :: "pyval list \<Rightarrow> kwargs \<Rightarrow> error + pyval" where
  "bind_data [d] [] = Inr d"
| "bind_data [] [(k, d)] = (if k = ''data'' then Inr d else Inl TypeError)"
| "bind_data _ _ = Inl TypeError"

text \<open>
  The body of \<open>Cache.store\<close>, before decoration; \<open>rnd\<close> is the random draw of this call.
  On an object without a client the attribute access fails.
\<close>

definition store :: "128 word \<Rightarrow> pyfunc" where
  "store rnd =
     \<lparr>qualname = ''Cache.store'',
      call = (\<lambda>self args kwargs r.
        case bind_data args kwargs of
          Inl e \<Rightarrow> (Inl e, r)
        | Inr data \<Rightarrow>
            let storage_key = uuid_str (uuid4 rnd)
            in case self_redis self of
                 RedisClient \<Rightarrow>
                   (case redis_set storage_key data r of
                      Inl e \<Rightarrow> (Inl e, r)
                    | Inr r1 \<Rightarrow> (Inr (PyStr storage_key), r1))
               | _ \<Rightarrow> (Inl AttributeError, r))\<rparr>"

text \<open>\<open>Cache.store\<close> as decorated: \<open>@call_history\<close> over \<open>@count_calls\<close>.\<close>

definition Cache_store :: "(pyval \<Rightarrow> string) \<Rightarrow> 128 word \<Rightarrow> pymethod" where
  "Cache_store rp rnd = call (call_history rp (count_calls (store rnd)))"

text \<open>
  A client that calls the decorated \<open>store\<close> of one instance several times in a row, each
  call with its random draw and its arguments, stopping at the first call that raises;
  it returns the keys of the calls in order.
\<close>

fun store_calls ::
  "(pyval \<Rightarrow> string) \<Rightarrow> pyobj \<Rightarrow> (128 word \<times> pyval list \<times> kwargs) list \<Rightarrow> redis
     \<Rightarrow> (error + pyval list) \<times> redis" where
  "store_calls rp self [] r = (Inr [], r)"
| "store_calls rp self ((rnd, args, kwargs) # rest) r =
     (case Cache_store rp rnd self args kwargs r of
        (Inl e, r1) \<Rightarrow> (Inl e, r1)
      | (Inr k, r1) \<Rightarrow>
          (case store_calls rp self rest r1 of
             (Inl e, r2) \<Rightarrow> (Inl e, r2)
           | (Inr ks, r2) \<Rightarrow> (Inr (k # ks), r2)))"

text \<open>
  \<open>Cache.get\<close> on an instance of the class: the reply of \<open>GET\<close> is \<open>None\<close> or bytes, and
  the optional \<open>fn\<close> is applied to it.
\<close>

fun stored_value :: "bytes option \<Rightarrow> pyval" where
  "stored_value None = PyNone"
| "stored_value (Some b) = PyBytes b"

definition Cache_get ::
  "string \<Rightarrow> (bytes option \<Rightarrow> error + pyval) option \<Rightarrow> redis \<Rightarrow> error + pyval" where
  "Cache_get key fn r =
     (case redis_get key r of
        Inl e \<Rightarrow> Inl e
      | Inr stored_data \<Rightarrow>
          (case fn of
             Some f \<Rightarrow> f stored_data
           | None \<Rightarrow> Inr (stored_value stored_data)))"

definition get_str :: "string \<Rightarrow> redis \<Rightarrow> error + pyval" where
  "get_str key =
     Cache_get key (Some (\<lambda>x. case x of
        None \<Rightarrow> Inl AttributeError
      | Some b \<Rightarrow> (case utf8_decode b of Inl e \<Rightarrow> Inl e | Inr s \<Rightarrow> Inr (PyStr s))))"

definition get_int :: "(bytes \<Rightarrow> int option) \<Rightarrow> string \<Rightarrow> redis \<Rightarrow> error + pyval" where
  "get_int pint key =
     Cache_get key (Some (\<lambda>x. case py_int pint x of Inl e \<Rightarrow> Inl e | Inr i \<Rightarrow> Inr (PyInt i)))"

section \<open>web.py: the page cache\<close>

text \<open>
  The wrapped method talks to the network, a state \<open>'w\<close> of its own, and returns its
  result or the exception it raised. The wrapper works on the module's one store.
\<close>

definition cache_response ::
  "(string \<Rightarrow> 'w \<Rightarrow> (error + pyval) \<times> 'w) \<Rightarrow> string \<Rightarrow> redis \<Rightarrow> 'w
     \<Rightarrow> (error + pyval) \<times> redis \<times> 'w" where
  "cache_response method url r w =
     (case redis_incr (''count:'' @ url) r of
        Inl e \<Rightarrow> (Inl e, r, w)
      | Inr (n, r1) \<Rightarrow>
          (case redis_get (''result:'' @ url) r1 of
             Inl e \<Rightarrow> (Inl e, r1, w)
           | Inr result \<Rightarrow>
               (case result of
                  Some (c # cs) \<Rightarrow>
                    (case utf8_decode (c # cs) of
                       Inl e \<Rightarrow> (Inl e, r1, w)
                     | Inr s \<Rightarrow> (Inr (PyStr s), r1, w))
                | _ \<Rightarrow>
                    (case method url w of
                       (Inl e, w1) \<Rightarrow> (Inl e, r1, w1)
                     | (Inr fetched, w1) \<Rightarrow>
                         (case redis_setex (''result:'' @ url) 10 fetched r1 of
                            Inl e \<Rightarrow> (Inl e, r1, w1)
                          | Inr r2 \<Rightarrow> (Inr fetched, r2, w1))))))"

text \<open>
  \<open>get_page\<close>: \<open>requests.get(url).text\<close> under \<open>@cache_response\<close>. The HTTP library is the
  parameter \<open>http\<close>: the body of the response as text, or the description of the
  exception it raised.
\<close>

definition get_page ::
  "(string \<Rightarrow> 'w \<Rightarrow> (string + string) \<times> 'w) \<Rightarrow> string \<Rightarrow> redis \<Rightarrow> 'w
     \<Rightarrow> (error + pyval) \<times> redis \<times> 'w" where
  "get_page http =
     cache_response (\<lambda>url w.
       case http url w of
         (Inl x, w1) \<Rightarrow> (Inl (RequestException x), w1)
       | (Inr body, w1) \<Rightarrow> (Inr (PyStr body), w1))"

section \<open>Decimal text read back\<close>

lemma of_char_digit_char: "d < 10 \<Longrightarrow> (of_char (digit_char d) :: nat) = 48 + d"
  by (simp add: digit_char_def)

lemma is_digit_digit_char: "d < 10 \<Longrightarrow> is_digit (digit_char d)"
  by (simp add: is_digit_def of_char_digit_char)

lemma digit_val_digit_char: "d < 10 \<Longrightarrow> digit_val (digit_char d) = d"
  by (simp add: digit_val_def of_char_digit_char)

lemma digit_char_eq_zero: "d < 10 \<Longrightarrow> digit_char d = CHR ''0'' \<longleftrightarrow> d = 0"
proof -
  assume d: "d < 10"
  have "digit_char d = CHR ''0'' \<longleftrightarrow> (of_char (digit_char d) :: nat) = of_char CHR ''0''"
    by (simp only: of_char_eq_iff)
  then show ?thesis using d by (simp add: of_char_digit_char)
qed

lemma str_nat_not_Nil: "str_nat n \<noteq> []"
  by (subst str_nat.simps) simp

lemma str_nat_digits: "list_all is_digit (str_nat n)"
proof (induction n rule: str_nat.induct)
  case (1 n)
  show ?case
  proof (cases "n < 10")
    case True
    then show ?thesis by (subst str_nat.simps) (simp add: is_digit_digit_char)
  next
    case False
    with 1 show ?thesis by (subst str_nat.simps) (simp add: is_digit_digit_char)
  qed
qed

lemma nat_of_digits_snoc: "nat_of_digits (ds @ [c]) = 10 * nat_of_digits ds + digit_val c"
  by (simp add: nat_of_digits_def)

lemma nat_of_digits_str_nat: "nat_of_digits (str_nat n) = n"
proof (induction n rule: str_nat.induct)
  case (1 n)
  show ?case
  proof (cases "n < 10")
    case True
    then show ?thesis
      by (subst str_nat.simps) (simp add: nat_of_digits_def digit_val_digit_char)
  next
    case False
    with 1 have "nat_of_digits (str_nat (n div 10)) = n div 10" by simp
    with False show ?thesis
      by (subst str_nat.simps) (simp add: nat_of_digits_snoc digit_val_digit_char)
  qed
qed

lemma hd_str_nat: "0 < n \<Longrightarrow> hd (str_nat n) \<noteq> CHR ''0''"
proof (induction n rule: str_nat.induct)
  case (1 n)
  show ?case
  proof (cases "n < 10")
    case True
    with 1(2) show ?thesis
      by (subst str_nat.simps) (simp add: digit_char_eq_zero)
  next
    case False
    then have "0 < n div 10" by simp
    with 1(1) False have "hd (str_nat (n div 10)) \<noteq> CHR ''0''" by simp
    with False show ?thesis
      by (subst str_nat.simps) (simp add: str_nat_not_Nil)
  qed
qed

lemma canonical_str_nat: "0 < n \<Longrightarrow> canonical_digits (str_nat n)"
  by (simp add: canonical_digits_def str_nat_not_Nil str_nat_digits hd_str_nat)

lemma hd_str_nat_not_minus: "hd (str_nat n) \<noteq> CHR ''-''"
proof -
  have "is_digit (hd (str_nat n))"
    using str_nat_digits [of n] str_nat_not_Nil [of n]
    by (cases "str_nat n") simp_all
  then show ?thesis by (auto simp: is_digit_def)
qed

lemma str_nat_eq_zero: "str_nat n = ''0'' \<longleftrightarrow> n = 0"
proof
  assume "str_nat n = ''0''"
  then have "nat_of_digits (str_nat n) = nat_of_digits ''0''" by simp
  then show "n = 0" by (simp add: nat_of_digits_str_nat) (simp add: nat_of_digits_def digit_val_def)
next
  assume "n = 0"
  then show "str_nat n = ''0''" by (subst str_nat.simps) (simp add: digit_char_eq_zero)
qed

lemma string2ll_str_int:
  assumes "- (2 ^ 63) \<le> i" and "i < 2 ^ 63"
  shows "string2ll (str_int i) = Some i"
proof -
  consider "i = 0" | "0 < i" | "i < 0" by linarith
  then show ?thesis
  proof cases
    case 1
    then show ?thesis by (simp add: str_int_def string2ll_def str_nat_eq_zero)
  next
    case 2
    obtain c ds where cd: "str_nat (nat i) = c # ds"
      using str_nat_not_Nil [of "nat i"] by (cases "str_nat (nat i)") auto
    have c: "c \<noteq> CHR ''-''" using hd_str_nat_not_minus [of "nat i"] cd by simp
    have nz: "str_nat (nat i) \<noteq> ''0''" using 2 by (simp add: str_nat_eq_zero)
    have can: "canonical_digits (c # ds)" using canonical_str_nat [of "nat i"] 2 cd by simp
    have val: "int (nat_of_digits (c # ds)) = i"
      using nat_of_digits_str_nat [of "nat i"] 2 cd by simp
    show ?thesis
      using 2 assms(2) cd c nz can val by (simp add: str_int_def string2ll_def)
  next
    case 3
    have can: "canonical_digits (str_nat (nat (- i)))" using canonical_str_nat [of "nat (- i)"] 3 by simp
    have val: "int (nat_of_digits (str_nat (nat (- i)))) = - i"
      using nat_of_digits_str_nat [of "nat (- i)"] 3 by simp
    show ?thesis
      using 3 assms(1) can val by (simp add: str_int_def string2ll_def)
  qed
qed

lemma length_hex32: "length (hex32 u) = 32"
  unfolding hex32_def by (simp only: length_map length_upt)

lemma length_uuid_str: "length (uuid_str u) = 36"
proof -
  have "length (hex32 u) = 32" by (rule length_hex32)
  then show ?thesis
    unfolding uuid_str_def slice_def Let_def
    by (simp del: upt_rec_numeral)
qed

section \<open>Construction and retrieval\<close>

text \<open>
  C7. Constructing a Cache flushes the database: whatever the store held before, it holds
  no key (and no time to live) right after \<open>Cache.__init__\<close>, so every \<open>GET\<close> finds nothing;
  the new instance carries a Redis client.
\<close>

theorem Cache_init_flushes:
  "db (snd (Cache_init r)) = Map.empty
   \<and> ttl (snd (Cache_init r)) = Map.empty
   \<and> redis_get k (snd (Cache_init r)) = Inr None
   \<and> redis_exists k (snd (Cache_init r)) = 0
   \<and> self_redis (fst (Cache_init r)) = RedisClient"
  by (simp add: Cache_init_def redis_flushdb_def redis_get_def redis_exists_def)

section \<open>What the commands and one call of the decorated store do\<close>

lemma uuid_str_not_instrumentation_key:
  "uuid_str u \<noteq> ''Cache.store''" "uuid_str u \<noteq> ''Cache.store:inputs''"
  "uuid_str u \<noteq> ''Cache.store:outputs''"
  using length_uuid_str [of u] by auto

lemma list_range_all: "list_range xs 0 (- 1) = xs"
  by (simp add: list_range_def Let_def)

lemma string2ll_range: "string2ll b = Some n \<Longrightarrow> - (2 ^ 63) \<le> n \<and> n < 2 ^ 63"
  by (auto simp: string2ll_def split: if_splits list.splits)

lemma redis_int_value_range:
  "redis_int_value k r = Inr n \<Longrightarrow> - (2 ^ 63) \<le> n \<and> n < 2 ^ 63"
  by (auto simp: redis_int_value_def dest: string2ll_range
      split: option.splits rvalue.splits)

lemma redis_rpush_Inr:
  assumes "redis_rpush k v r = Inr r'"
  obtains b xs where "redis_encode v = Inr b" "redis_lrange k 0 (- 1) r = Inr xs"
    "r' = r\<lparr>db := (db r)(k \<mapsto> RList (xs @ [b]))\<rparr>"
  using assms
  by (auto simp: redis_rpush_def redis_lrange_def list_range_all
      split: sum.splits option.splits rvalue.splits)

lemma redis_incr_Inr:
  assumes "redis_incr k r = Inr (m, r')"
  obtains n where "redis_int_value k r = Inr n" "m = n + 1"
    "r' = r\<lparr>db := (db r)(k \<mapsto> RString (str_int (n + 1)))\<rparr>"
    "redis_int_value k r' = Inr (n + 1)"
proof -
  from assms obtain n where n: "redis_int_value k r = Inr n" "n \<noteq> 2 ^ 63 - 1" "m = n + 1"
    "r' = r\<lparr>db := (db r)(k \<mapsto> RString (str_int (n + 1)))\<rparr>"
    by (auto simp: redis_incr_def split: sum.splits if_splits)
  from redis_int_value_range [OF n(1)] n(2) have "- (2 ^ 63) \<le> n + 1" "n + 1 < 2 ^ 63"
    by simp_all
  then have "string2ll (str_int (n + 1)) = Some (n + 1)" by (rule string2ll_str_int)
  then have "redis_int_value k r' = Inr (n + 1)"
    by (simp add: n(4) redis_int_value_def)
  with n show ?thesis using that by blast
qed

lemma redis_set_Inr:
  assumes "redis_set k v r = Inr r'"
  obtains b where "redis_encode v = Inr b"
    "r' = r\<lparr>db := (db r)(k \<mapsto> RString b), ttl := (ttl r)(k := None)\<rparr>"
  using assms by (auto simp: redis_set_def split: sum.splits)

lemma Cache_store_unfold:
  "self_redis self = RedisClient \<Longrightarrow>
   Cache_store rp rnd self args kwargs r =
     (case redis_rpush ''Cache.store:inputs'' (PyStr (str_tuple rp args)) r of
        Inl e \<Rightarrow> (Inl e, r)
      | Inr r1 \<Rightarrow>
          (case redis_incr ''Cache.store'' r1 of
             Inl e \<Rightarrow> (Inl e, r1)
           | Inr (n, r2) \<Rightarrow>
               (case bind_data args kwargs of
                  Inl e \<Rightarrow> (Inl e, r2)
                | Inr data \<Rightarrow>
                    (case redis_set (uuid_str (uuid4 rnd)) data r2 of
                       Inl e \<Rightarrow> (Inl e, r2)
                     | Inr r3 \<Rightarrow>
                         (case redis_rpush ''Cache.store:outputs'' (PyStr (uuid_str (uuid4 rnd))) r3 of
                            Inl e \<Rightarrow> (Inl e, r3)
                          | Inr r4 \<Rightarrow> (Inr (PyStr (uuid_str (uuid4 rnd))), r4))))))"
  by (simp add: Cache_store_def call_history_def count_calls_def store_def Let_def
      split: sum.splits prod.splits)


lemmas uuid_key_neq =
  uuid_str_not_instrumentation_key uuid_str_not_instrumentation_key [THEN not_sym]

lemma Cache_store_steps:
  assumes self: "self_redis self = RedisClient"
    and call: "Cache_store rp rnd self args kwargs r = (Inr v, r')"
  shows "\<exists>r1 m r2 data r3.
    redis_rpush ''Cache.store:inputs'' (PyStr (str_tuple rp args)) r = Inr r1
    \<and> redis_incr ''Cache.store'' r1 = Inr (m, r2)
    \<and> bind_data args kwargs = Inr data
    \<and> redis_set (uuid_str (uuid4 rnd)) data r2 = Inr r3
    \<and> redis_rpush ''Cache.store:outputs'' (PyStr (uuid_str (uuid4 rnd))) r3 = Inr r'
    \<and> v = PyStr (uuid_str (uuid4 rnd))"
proof (cases "redis_rpush ''Cache.store:inputs'' (PyStr (str_tuple rp args)) r")
  case (Inl e)
  with call show ?thesis by (simp add: Cache_store_unfold [OF self])
next
  case s1: (Inr r1)
  show ?thesis
  proof (cases "redis_incr ''Cache.store'' r1")
    case (Inl e)
    with call s1 show ?thesis by (simp add: Cache_store_unfold [OF self])
  next
    case (Inr mr)
    then obtain m r2 where s2: "redis_incr ''Cache.store'' r1 = Inr (m, r2)"
      by (cases mr) simp
    show ?thesis
    proof (cases "bind_data args kwargs")
      case (Inl e)
      with call s1 s2 show ?thesis by (simp add: Cache_store_unfold [OF self])
    next
      case s3: (Inr data)
      show ?thesis
      proof (cases "redis_set (uuid_str (uuid4 rnd)) data r2")
        case (Inl e)
        with call s1 s2 s3 show ?thesis by (simp add: Cache_store_unfold [OF self])
      next
        case s4: (Inr r3)
        show ?thesis
        proof (cases "redis_rpush ''Cache.store:outputs'' (PyStr (uuid_str (uuid4 rnd))) r3")
          case (Inl e)
          with call s1 s2 s3 s4 show ?thesis by (simp add: Cache_store_unfold [OF self])
        next
          case s5: (Inr r4)
          with call s1 s2 s3 s4 have "v = PyStr (uuid_str (uuid4 rnd))" "r' = r4"
            by (simp_all add: Cache_store_unfold [OF self])
          with s1 s2 s3 s4 s5 show ?thesis by simp
        qed
      qed
    qed
  qed
qed

lemma Cache_store_returns:
  assumes self: "self_redis self = RedisClient"
    and call: "Cache_store rp rnd self args kwargs r = (Inr v, r')"
  obtains data b xs ys n where
    "bind_data args kwargs = Inr data" "redis_encode data = Inr b"
    "redis_lrange ''Cache.store:inputs'' 0 (- 1) r = Inr xs"
    "redis_lrange ''Cache.store:outputs'' 0 (- 1) r = Inr ys"
    "redis_int_value ''Cache.store'' r = Inr n"
    "v = PyStr (uuid_str (uuid4 rnd))"
    "redis_lrange ''Cache.store:inputs'' 0 (- 1) r' = Inr (xs @ [str_tuple rp args])"
    "redis_lrange ''Cache.store:outputs'' 0 (- 1) r' = Inr (ys @ [uuid_str (uuid4 rnd)])"
    "redis_int_value ''Cache.store'' r' = Inr (n + 1)"
    "redis_get ''Cache.store'' r' = Inr (Some (str_int (n + 1)))"
    "redis_get (uuid_str (uuid4 rnd)) r' = Inr (Some b)"
proof -
  let ?key = "uuid_str (uuid4 rnd)"
  from call obtain r1 m r2 data r3 where
    s1: "redis_rpush ''Cache.store:inputs'' (PyStr (str_tuple rp args)) r = Inr r1"
    and s2: "redis_incr ''Cache.store'' r1 = Inr (m, r2)"
    and s3: "bind_data args kwargs = Inr data"
    and s4: "redis_set ?key data r2 = Inr r3"
    and s5: "redis_rpush ''Cache.store:outputs'' (PyStr ?key) r3 = Inr r'"
    and v: "v = PyStr ?key"
    using Cache_store_steps [OF self call] by blast
  from s1 obtain xs where xs: "redis_lrange ''Cache.store:inputs'' 0 (- 1) r = Inr xs"
    and r1: "r1 = r\<lparr>db := (db r)(''Cache.store:inputs'' \<mapsto> RList (xs @ [str_tuple rp args]))\<rparr>"
    by (elim redis_rpush_Inr) auto
  from s2 obtain n where n1: "redis_int_value ''Cache.store'' r1 = Inr n"
    and r2: "r2 = r1\<lparr>db := (db r1)(''Cache.store'' \<mapsto> RString (str_int (n + 1)))\<rparr>"
    and n2: "redis_int_value ''Cache.store'' r2 = Inr (n + 1)"
    by (elim redis_incr_Inr) auto
  from s4 obtain b where b: "redis_encode data = Inr b"
    and r3: "r3 = r2\<lparr>db := (db r2)(?key \<mapsto> RString b), ttl := (ttl r2)(?key := None)\<rparr>"
    by (elim redis_set_Inr) auto
  from s5 obtain ys where ys: "redis_lrange ''Cache.store:outputs'' 0 (- 1) r3 = Inr ys"
    and r': "r' = r3\<lparr>db := (db r3)(''Cache.store:outputs'' \<mapsto> RList (ys @ [?key]))\<rparr>"
    by (elim redis_rpush_Inr) auto
  have n: "redis_int_value ''Cache.store'' r = Inr n"
    using n1 by (simp add: r1 redis_int_value_def)
  have ys0: "redis_lrange ''Cache.store:outputs'' 0 (- 1) r = Inr ys"
    using ys by (simp add: r3 r2 r1 redis_lrange_def uuid_key_neq)
  have o1: "redis_lrange ''Cache.store:inputs'' 0 (- 1) r' = Inr (xs @ [str_tuple rp args])"
    by (simp add: r' r3 r2 r1 redis_lrange_def list_range_all uuid_key_neq)
  have o2: "redis_lrange ''Cache.store:outputs'' 0 (- 1) r' = Inr (ys @ [?key])"
    by (simp add: r' redis_lrange_def list_range_all)
  have o3: "redis_int_value ''Cache.store'' r' = Inr (n + 1)"
    using n2 by (simp add: r' r3 redis_int_value_def uuid_key_neq)
  have o4: "redis_get ''Cache.store'' r' = Inr (Some (str_int (n + 1)))"
    by (simp add: r' r3 r2 redis_get_def uuid_key_neq)
  have o5: "redis_get ?key r' = Inr (Some b)"
    by (simp add: r' r3 redis_get_def uuid_key_neq)
  from s3 b xs ys0 n v o1 o2 o3 o4 o5 show ?thesis by (rule that)
qed

lemma redis_rpush_ok:
  "redis_encode v = Inr b \<Longrightarrow> redis_lrange k 0 (- 1) r = Inr xs \<Longrightarrow>
   redis_rpush k v r = Inr (r\<lparr>db := (db r)(k \<mapsto> RList (xs @ [b]))\<rparr>)"
  by (auto simp: redis_rpush_def redis_lrange_def list_range_all
      split: option.splits rvalue.splits)

lemma redis_incr_ok:
  "redis_int_value k r = Inr n \<Longrightarrow> n \<noteq> 2 ^ 63 - 1 \<Longrightarrow>
   redis_incr k r = Inr (n + 1, r\<lparr>db := (db r)(k \<mapsto> RString (str_int (n + 1)))\<rparr>)"
  by (simp add: redis_incr_def)

lemma Cache_store_completes:
  assumes self: "self_redis self = RedisClient"
    and xs: "redis_lrange ''Cache.store:inputs'' 0 (- 1) r = Inr xs"
    and ys: "redis_lrange ''Cache.store:outputs'' 0 (- 1) r = Inr ys"
    and n: "redis_int_value ''Cache.store'' r = Inr n" "n \<noteq> 2 ^ 63 - 1"
    and data: "bind_data args kwargs = Inr data" "redis_encode data = Inr b"
  shows "fst (Cache_store rp rnd self args kwargs r) = Inr (PyStr (uuid_str (uuid4 rnd)))"
proof -
  let ?key = "uuid_str (uuid4 rnd)"
  define r1 where
    "r1 = r\<lparr>db := (db r)(''Cache.store:inputs'' \<mapsto> RList (xs @ [str_tuple rp args]))\<rparr>"
  define r2 where "r2 = r1\<lparr>db := (db r1)(''Cache.store'' \<mapsto> RString (str_int (n + 1)))\<rparr>"
  define r3 where
    "r3 = r2\<lparr>db := (db r2)(?key \<mapsto> RString b), ttl := (ttl r2)(?key := None)\<rparr>"
  have s1: "redis_rpush ''Cache.store:inputs'' (PyStr (str_tuple rp args)) r = Inr r1"
    unfolding r1_def by (rule redis_rpush_ok [OF _ xs]) simp
  have "redis_int_value ''Cache.store'' r1 = Inr n"
    using n(1) by (simp add: r1_def redis_int_value_def)
  then have s2: "redis_incr ''Cache.store'' r1 = Inr (n + 1, r2)"
    unfolding r2_def using n(2) by (rule redis_incr_ok)
  have s4: "redis_set ?key data r2 = Inr r3"
    by (simp add: redis_set_def data(2) r3_def)
  have "redis_lrange ''Cache.store:outputs'' 0 (- 1) r3 = Inr ys"
    using ys by (simp add: r3_def r2_def r1_def redis_lrange_def uuid_key_neq)
  then have s5: "redis_rpush ''Cache.store:outputs'' (PyStr ?key) r3
      = Inr (r3\<lparr>db := (db r3)(''Cache.store:outputs'' \<mapsto> RList (ys @ [?key]))\<rparr>)"
    by (rule redis_rpush_ok [rotated]) simp
  show ?thesis
    by (simp add: Cache_store_unfold [OF self] s1 s2 data(1) s4 s5)
qed

lemma fresh_store:
  "redis_lrange k 0 (- 1) \<lparr>db = Map.empty, ttl = Map.empty\<rparr> = Inr []"
  "redis_int_value k \<lparr>db = Map.empty, ttl = Map.empty\<rparr> = Inr 0"
  by (simp_all add: redis_lrange_def redis_int_value_def)

lemma redis_rpush_frame:
  "redis_rpush k v r = Inr r' \<Longrightarrow> k' \<noteq> k \<Longrightarrow> db r' k' = db r k' \<and> ttl r' k' = ttl r k'"
  by (auto simp: redis_rpush_def split: sum.splits option.splits rvalue.splits)

lemma redis_incr_frame:
  "redis_incr k r = Inr (m, r') \<Longrightarrow> k' \<noteq> k \<Longrightarrow> db r' k' = db r k' \<and> ttl r' k' = ttl r k'"
  by (auto simp: redis_incr_def split: sum.splits if_splits)

lemma redis_set_frame:
  "redis_set k v r = Inr r' \<Longrightarrow> k' \<noteq> k \<Longrightarrow> db r' k' = db r k' \<and> ttl r' k' = ttl r k'"
  by (auto simp: redis_set_def split: sum.splits)

lemma Cache_store_frame:
  assumes k: "k \<noteq> uuid_str (uuid4 rnd)" "k \<noteq> ''Cache.store''"
    "k \<noteq> ''Cache.store:inputs''" "k \<noteq> ''Cache.store:outputs''"
  shows "db (snd (Cache_store rp rnd self args kwargs r)) k = db r k
    \<and> ttl (snd (Cache_store rp rnd self args kwargs r)) k = ttl r k"
proof (cases "self_redis self")
  case NoAttr
  then show ?thesis
    by (simp add: Cache_store_def call_history_def count_calls_def store_def Let_def)
next
  case NotRedis
  then show ?thesis
    by (simp add: Cache_store_def call_history_def count_calls_def store_def Let_def
        split: sum.splits)
next
  case RedisClient
  note U = Cache_store_unfold [OF RedisClient]
  show ?thesis
  proof (cases "redis_rpush ''Cache.store:inputs'' (PyStr (str_tuple rp args)) r")
    case (Inl e)
    then show ?thesis by (simp add: U)
  next
    case s1: (Inr r1)
    from redis_rpush_frame [OF s1 k(3)]
    have f1: "db r1 k = db r k \<and> ttl r1 k = ttl r k" .
    show ?thesis
    proof (cases "redis_incr ''Cache.store'' r1")
      case (Inl e)
      with s1 f1 show ?thesis by (simp add: U)
    next
      case (Inr mr)
      then obtain m r2 where s2: "redis_incr ''Cache.store'' r1 = Inr (m, r2)"
        by (cases mr) simp
      from redis_incr_frame [OF s2 k(2)] f1
      have f2: "db r2 k = db r k \<and> ttl r2 k = ttl r k" by simp
      show ?thesis
      proof (cases "bind_data args kwargs")
        case (Inl e)
        with s1 s2 f2 show ?thesis by (simp add: U)
      next
        case s3: (Inr data)
        show ?thesis
        proof (cases "redis_set (uuid_str (uuid4 rnd)) data r2")
          case (Inl e)
          with s1 s2 s3 f2 show ?thesis by (simp add: U)
        next
          case s4: (Inr r3)
          from redis_set_frame [OF s4 k(1)] f2
          have f3: "db r3 k = db r k \<and> ttl r3 k = ttl r k" by simp
          show ?thesis
          proof (cases "redis_rpush ''Cache.store:outputs'' (PyStr (uuid_str (uuid4 rnd))) r3")
            case (Inl e)
            with s1 s2 s3 s4 f3 show ?thesis by (simp add: U)
          next
            case s5: (Inr r4)
            from redis_rpush_frame [OF s5 k(4)] f3
            have "db r4 k = db r k \<and> ttl r4 k = ttl r k" by simp
            with s1 s2 s3 s4 s5 show ?thesis by (simp add: U)
          qed
        qed
      qed
    qed
  qed
qed

lemma store_calls_frame:
  assumes k: "k \<noteq> ''Cache.store''" "k \<noteq> ''Cache.store:inputs''" "k \<noteq> ''Cache.store:outputs''"
  shows "k \<notin> (\<lambda>c. uuid_str (uuid4 (fst c))) ` set calls \<Longrightarrow>
    db (snd (store_calls rp self calls r)) k = db r k"
proof (induction calls arbitrary: r)
  case Nil
  show ?case by simp
next
  case (Cons c cs)
  obtain rnd args kwargs where c: "c = (rnd, args, kwargs)" by (cases c)
  from Cons.prems c have k1: "k \<noteq> uuid_str (uuid4 rnd)"
    and k2: "k \<notin> (\<lambda>c. uuid_str (uuid4 (fst c))) ` set cs" by auto
  obtain res r1 where cs1: "Cache_store rp rnd self args kwargs r = (res, r1)"
    by (cases "Cache_store rp rnd self args kwargs r")
  from Cache_store_frame [OF k1 k, of rp self args kwargs r] cs1
  have F1: "db r1 k = db r k" by simp
  show ?case
  proof (cases res)
    case (Inl e)
    with cs1 F1 c show ?thesis by simp
  next
    case (Inr key)
    obtain res2 r2 where cs2: "store_calls rp self cs r1 = (res2, r2)"
      by (cases "store_calls rp self cs r1")
    from Cons.IH [OF k2, of r1] cs2 have "db r2 k = db r1 k" by simp
    with cs1 cs2 Inr F1 c show ?thesis by (cases res2) simp_all
  qed
qed

lemma uuid_str_neq_short: "length s \<noteq> 36 \<Longrightarrow> s \<noteq> uuid_str u"
  using length_uuid_str [of u] by auto

lemma Cache_store_fresh:
  assumes "bind_data args kwargs = Inr data" "redis_encode data = Inr b"
  shows "Cache_store rp rnd \<lparr>self_redis = RedisClient\<rparr> args kwargs
           \<lparr>db = Map.empty, ttl = Map.empty\<rparr>
         = (Inr (PyStr (uuid_str (uuid4 rnd))),
            snd (Cache_store rp rnd \<lparr>self_redis = RedisClient\<rparr> args kwargs
                  \<lparr>db = Map.empty, ttl = Map.empty\<rparr>))"
proof -
  have s: "self_redis \<lparr>self_redis = RedisClient\<rparr> = RedisClient" by simp
  have n: "(0 :: int) \<noteq> 2 ^ 63 - 1" by simp
  from Cache_store_completes [OF s fresh_store(1) fresh_store(1) fresh_store(2) n assms]
  show ?thesis by (simp add: prod_eq_iff)
qed

lemma store_calls_effect:
  assumes self: "self_redis self = RedisClient"
  shows "store_calls rp self calls r = (Inr keys, r') \<Longrightarrow>
    redis_int_value ''Cache.store'' r = Inr n \<Longrightarrow>
    redis_lrange ''Cache.store:inputs'' 0 (- 1) r = Inr xs \<Longrightarrow>
    redis_lrange ''Cache.store:outputs'' 0 (- 1) r = Inr ys \<Longrightarrow>
    redis_int_value ''Cache.store'' r' = Inr (n + int (length calls))
    \<and> redis_lrange ''Cache.store:inputs'' 0 (- 1) r'
        = Inr (xs @ map (\<lambda>c. str_tuple rp (fst (snd c))) calls)
    \<and> redis_lrange ''Cache.store:outputs'' 0 (- 1) r'
        = Inr (ys @ map (\<lambda>c. uuid_str (uuid4 (fst c))) calls)
    \<and> keys = map (\<lambda>c. PyStr (uuid_str (uuid4 (fst c)))) calls
    \<and> (calls \<noteq> [] \<longrightarrow>
         redis_get ''Cache.store'' r' = Inr (Some (str_int (n + int (length calls)))))"
proof (induction calls arbitrary: r n xs ys keys)
  case Nil
  then show ?case by simp
next
  case (Cons c cs)
  obtain rnd args kwargs where c: "c = (rnd, args, kwargs)" by (cases c)
  from Cons.prems(1) obtain k r1 ks where
    k: "Cache_store rp rnd self args kwargs r = (Inr k, r1)"
    and ks: "store_calls rp self cs r1 = (Inr ks, r')"
    and keys: "keys = k # ks"
    by (auto simp: c split: prod.splits sum.splits)
  from self k obtain xs0 ys0 n0 where
    pre: "redis_lrange ''Cache.store:inputs'' 0 (- 1) r = Inr xs0"
      "redis_lrange ''Cache.store:outputs'' 0 (- 1) r = Inr ys0"
      "redis_int_value ''Cache.store'' r = Inr n0"
    and kv: "k = PyStr (uuid_str (uuid4 rnd))"
    and post: "redis_lrange ''Cache.store:inputs'' 0 (- 1) r1 = Inr (xs0 @ [str_tuple rp args])"
      "redis_lrange ''Cache.store:outputs'' 0 (- 1) r1 = Inr (ys0 @ [uuid_str (uuid4 rnd)])"
      "redis_int_value ''Cache.store'' r1 = Inr (n0 + 1)"
      "redis_get ''Cache.store'' r1 = Inr (Some (str_int (n0 + 1)))"
    by (rule Cache_store_returns)
  from pre Cons.prems(2-4) have eq: "xs0 = xs" "ys0 = ys" "n0 = n" by simp_all
  note IH = Cons.IH [OF ks post(3) post(1) post(2), unfolded eq]
  show ?case
  proof (cases cs)
    case Nil
    with ks have "r' = r1" "ks = []" by simp_all
    with post kv keys c Nil show ?thesis by (simp add: eq)
  next
    case (Cons c' cs')
    with IH kv keys c show ?thesis by (simp add: add.assoc)
  qed
qed

lemma redis_rpush_str_error: "redis_rpush k (PyStr s) r = Inl e \<Longrightarrow> e = ResponseError"
  by (auto simp: redis_rpush_def split: option.splits rvalue.splits)

lemma redis_incr_error: "redis_incr k r = Inl e \<Longrightarrow> e = ResponseError"
  by (auto simp: redis_incr_def redis_int_value_def
      split: sum.splits if_splits option.splits rvalue.splits)

lemma Cache_store_body_steps:
  assumes self: "self_redis self = RedisClient"
    and call: "Cache_store rp rnd self args kwargs r = (Inl e, r')"
    and e: "e = TypeError \<or> e = DataError"
  shows "\<exists>r1 m.
    redis_rpush ''Cache.store:inputs'' (PyStr (str_tuple rp args)) r = Inr r1
    \<and> redis_incr ''Cache.store'' r1 = Inr (m, r')
    \<and> call (store rnd) self args kwargs r' = (Inl e, r')"
proof (cases "redis_rpush ''Cache.store:inputs'' (PyStr (str_tuple rp args)) r")
  case (Inl e')
  with call have "e = e'" by (simp add: Cache_store_unfold [OF self])
  with redis_rpush_str_error [OF Inl] e show ?thesis by simp
next
  case s1: (Inr r1)
  show ?thesis
  proof (cases "redis_incr ''Cache.store'' r1")
    case (Inl e')
    with call s1 have "e = e'" by (simp add: Cache_store_unfold [OF self])
    with redis_incr_error [OF Inl] e show ?thesis by simp
  next
    case (Inr mr)
    then obtain m r2 where s2: "redis_incr ''Cache.store'' r1 = Inr (m, r2)"
      by (cases mr) simp
    show ?thesis
    proof (cases "bind_data args kwargs")
      case (Inl e')
      with call s1 s2 have "e = e'" "r' = r2" by (simp_all add: Cache_store_unfold [OF self])
      with s1 s2 Inl show ?thesis by (simp add: store_def)
    next
      case s3: (Inr data)
      show ?thesis
      proof (cases "redis_set (uuid_str (uuid4 rnd)) data r2")
        case (Inl e')
        with call s1 s2 s3 have "e = e'" "r' = r2"
          by (simp_all add: Cache_store_unfold [OF self])
        with s1 s2 s3 Inl self show ?thesis by (simp add: store_def Let_def)
      next
        case s4: (Inr r3)
        show ?thesis
        proof (cases "redis_rpush ''Cache.store:outputs'' (PyStr (uuid_str (uuid4 rnd))) r3")
          case (Inl e')
          with call s1 s2 s3 s4 have "e = e'" by (simp add: Cache_store_unfold [OF self])
          with redis_rpush_str_error [OF Inl] e show ?thesis by simp
        next
          case s5: (Inr r4)
          with call s1 s2 s3 s4 show ?thesis by (simp add: Cache_store_unfold [OF self])
        qed
      qed
    qed
  qed
qed

section \<open>The keys a call of the decorated store touches\<close>

text \<open>
  C9. A call of the decorated \<open>Cache.store\<close>, whatever its arguments, its instance and
  its outcome, leaves every key other than the generated identifier, the counter
  \<open>Cache.store\<close> and the two history lists \<open>Cache.store:inputs\<close> and
  \<open>Cache.store:outputs\<close> as it was: the same value, and the same time to live.
\<close>

theorem Cache_store_frame_keys:
  "k \<notin> {uuid_str (uuid4 rnd), ''Cache.store'', ''Cache.store:inputs'', ''Cache.store:outputs''}
   \<Longrightarrow> db (snd (Cache_store rp rnd self args kwargs r)) k = db r k
     \<and> ttl (snd (Cache_store rp rnd self args kwargs r)) k = ttl r k"
  by (rule Cache_store_frame) simp_all

theorem Cache_store_frame_keys_witness:
  "''other'' \<notin> {uuid_str (uuid4 0), ''Cache.store'', ''Cache.store:inputs'', ''Cache.store:outputs''}
   \<and> db (snd (Cache_store (\<lambda>v. ''v'') 0 \<lparr>self_redis = RedisClient\<rparr> [PyInt 5] []
          \<lparr>db = [''other'' \<mapsto> RString ''x''], ttl = [''other'' \<mapsto> 7]\<rparr>)) ''other''
       = Some (RString ''x'')
   \<and> ttl (snd (Cache_store (\<lambda>v. ''v'') 0 \<lparr>self_redis = RedisClient\<rparr> [PyInt 5] []
          \<lparr>db = [''other'' \<mapsto> RString ''x''], ttl = [''other'' \<mapsto> 7]\<rparr>)) ''other''
       = Some 7"
proof -
  have k: "''other'' \<notin> {uuid_str (uuid4 0), ''Cache.store'', ''Cache.store:inputs'', ''Cache.store:outputs''}"
    by (simp add: uuid_str_neq_short)
  from Cache_store_frame_keys [OF k, of "\<lambda>v. ''v''" "\<lparr>self_redis = RedisClient\<rparr>" "[PyInt 5]" "[]"
      "\<lparr>db = [''other'' \<mapsto> RString ''x''], ttl = [''other'' \<mapsto> 7]\<rparr>"] k
  show ?thesis by simp
qed

section \<open>Reading a key that was never stored\<close>

text \<open>
  C5. On a Cache, after any run of calls of the decorated \<open>store\<close> since its construction
  (completed or cut short by a call that raised), \<open>Cache.get\<close> without a conversion
  function returns \<open>None\<close> and raises nothing for every key that is neither an identifier
  generated by one of the calls nor one of the three keys the instrumentation writes
  (\<open>Cache.store\<close>, \<open>Cache.store:inputs\<close>, \<open>Cache.store:outputs\<close>). The
  instrumentation keys are the exception to "never stored": no call of \<open>store\<close> was
  given or returned them, yet after one call \<open>get\<close> finds the counter's text
  \<open>b'1'\<close> under \<open>Cache.store\<close>.
\<close>

theorem Cache_get_never_stored:
  assumes "Cache_init r0 = (self, r)"
    and "store_calls rp self calls r = (res, r')"
    and "key \<notin> {''Cache.store'', ''Cache.store:inputs'', ''Cache.store:outputs''}"
    and "key \<notin> (\<lambda>c. uuid_str (uuid4 (fst c))) ` set calls"
  shows "Cache_get key None r' = Inr PyNone"
proof -
  from assms(1) have r: "db r key = None"
    by (auto simp: Cache_init_def redis_flushdb_def)
  from assms(3) have k: "key \<noteq> ''Cache.store''" "key \<noteq> ''Cache.store:inputs''"
    "key \<noteq> ''Cache.store:outputs''" by simp_all
  from store_calls_frame [OF k assms(4), of rp self r] assms(2) r
  have "db r' key = None" by simp
  then show ?thesis by (simp add: Cache_get_def redis_get_def)
qed

theorem Cache_get_never_stored_witness:
  "Cache_init \<lparr>db = [''old'' \<mapsto> RString ''x''], ttl = Map.empty\<rparr>
     = (\<lparr>self_redis = RedisClient\<rparr>, \<lparr>db = Map.empty, ttl = Map.empty\<rparr>)
   \<and> ''no-such-key'' \<notin> {''Cache.store'', ''Cache.store:inputs'', ''Cache.store:outputs''}
   \<and> ''no-such-key'' \<notin> (\<lambda>c. uuid_str (uuid4 (fst c))) ` set [(0 :: 128 word, [PyBytes ''a''], [] :: kwargs)]
   \<and> Cache_get ''no-such-key'' None
        (snd (store_calls (\<lambda>v. ''v'') \<lparr>self_redis = RedisClient\<rparr> [(0, [PyBytes ''a''], [])]
           \<lparr>db = Map.empty, ttl = Map.empty\<rparr>)) = Inr PyNone"
proof -
  have i: "Cache_init \<lparr>db = [''old'' \<mapsto> RString ''x''], ttl = Map.empty\<rparr>
     = (\<lparr>self_redis = RedisClient\<rparr>, \<lparr>db = Map.empty, ttl = Map.empty\<rparr>)"
    by (simp add: Cache_init_def redis_flushdb_def)
  have k: "''no-such-key'' \<notin> {''Cache.store'', ''Cache.store:inputs'', ''Cache.store:outputs''}"
    by simp
  have g: "''no-such-key'' \<notin> (\<lambda>c. uuid_str (uuid4 (fst c))) ` set [(0 :: 128 word, [PyBytes ''a''], [] :: kwargs)]"
    by (simp add: uuid_str_neq_short)
  from Cache_get_never_stored [OF i prod.collapse [symmetric] k g] i k g
  show ?thesis by blast
qed

theorem Cache_get_instrumentation_key_counterexample:
  "fst (Cache_store (\<lambda>v. ''v'') 0 \<lparr>self_redis = RedisClient\<rparr> [PyBytes ''a''] []
          \<lparr>db = Map.empty, ttl = Map.empty\<rparr>) = Inr (PyStr (uuid_str (uuid4 0)))
   \<and> uuid_str (uuid4 0) \<noteq> ''Cache.store''
   \<and> Cache_get ''Cache.store'' None
        (snd (Cache_store (\<lambda>v. ''v'') 0 \<lparr>self_redis = RedisClient\<rparr> [PyBytes ''a''] []
          \<lparr>db = Map.empty, ttl = Map.empty\<rparr>)) = Inr (PyBytes ''1'')"
proof -
  let ?c = "Cache_store (\<lambda>v. ''v'') 0 \<lparr>self_redis = RedisClient\<rparr> [PyBytes ''a''] []
          \<lparr>db = Map.empty, ttl = Map.empty\<rparr>"
  have s: "self_redis \<lparr>self_redis = RedisClient\<rparr> = RedisClient" by simp
  have c: "?c = (Inr (PyStr (uuid_str (uuid4 0))), snd ?c)"
    by (rule Cache_store_fresh [where data = "PyBytes ''a''" and b = "''a''"]) simp_all
  then have f: "fst ?c = Inr (PyStr (uuid_str (uuid4 0)))"
    by (simp add: prod_eq_iff)
  have d: "str_int 1 = ''1''" by code_simp
  from s c obtain n where "redis_int_value ''Cache.store'' \<lparr>db = Map.empty, ttl = Map.empty\<rparr> = Inr n"
    "redis_get ''Cache.store'' (snd ?c) = Inr (Some (str_int (n + 1)))"
    by (rule Cache_store_returns)
  then have "Cache_get ''Cache.store'' None (snd ?c) = Inr (PyBytes ''1'')"
    by (simp add: Cache_get_def fresh_store d)
  with f uuid_key_neq(1) [of "uuid4 0"] show ?thesis by simp
qed

section \<open>Storing a value and reading it back\<close>

text \<open>
  C1. When a call \<open>store(data)\<close> of the decorated \<open>Cache.store\<close> returns, it returns the
  text of the generated identifier, and \<open>Cache.get\<close> of that key without a conversion
  function returns the bytes the client wrote for \<open>data\<close>: \<open>data\<close> itself when it is
  bytes, its UTF-8 encoding when it is text, its decimal text when it is a number. So the
  round trip gives back the value only for bytes: \<open>store(123)\<close> reads back as
  \<open>b'123'\<close>, which is not \<open>123\<close>.
\<close>

theorem Cache_store_get_bytes:
  assumes "self_redis self = RedisClient"
    and "Cache_store rp rnd self [data] [] r = (Inr key, r')"
  shows "key = PyStr (uuid_str (uuid4 rnd))
     \<and> (\<exists>b. redis_encode data = Inr b
            \<and> Cache_get (uuid_str (uuid4 rnd)) None r' = Inr (PyBytes b))"
proof -
  from assms obtain d b where "bind_data [data] [] = Inr d" "redis_encode d = Inr b"
    "key = PyStr (uuid_str (uuid4 rnd))" "redis_get (uuid_str (uuid4 rnd)) r' = Inr (Some b)"
    by (rule Cache_store_returns)
  then show ?thesis by (simp add: Cache_get_def)
qed

theorem Cache_store_get_bytes_witness:
  "self_redis \<lparr>self_redis = RedisClient\<rparr> = RedisClient
   \<and> fst (Cache_store (\<lambda>v. ''v'') 0 \<lparr>self_redis = RedisClient\<rparr> [PyStr ''abc''] []
          \<lparr>db = Map.empty, ttl = Map.empty\<rparr>) = Inr (PyStr (uuid_str (uuid4 0)))
   \<and> (\<exists>b. redis_encode (PyStr ''abc'') = Inr b \<and> Cache_get (uuid_str (uuid4 0)) None
        (snd (Cache_store (\<lambda>v. ''v'') 0 \<lparr>self_redis = RedisClient\<rparr> [PyStr ''abc''] []
          \<lparr>db = Map.empty, ttl = Map.empty\<rparr>)) = Inr (PyBytes b))"
proof -
  let ?c = "Cache_store (\<lambda>v. ''v'') 0 \<lparr>self_redis = RedisClient\<rparr> [PyStr ''abc''] []
          \<lparr>db = Map.empty, ttl = Map.empty\<rparr>"
  have s: "self_redis \<lparr>self_redis = RedisClient\<rparr> = RedisClient" by simp
  have c: "?c = (Inr (PyStr (uuid_str (uuid4 0))), snd ?c)"
    by (rule Cache_store_fresh [where data = "PyStr ''abc''" and b = "''abc''"]) simp_all
  then have f: "fst ?c = Inr (PyStr (uuid_str (uuid4 0)))"
    by (simp add: prod_eq_iff)
  from Cache_store_get_bytes [OF s c] s f show ?thesis by blast
qed

theorem Cache_store_get_int_counterexample:
  "fst (Cache_store (\<lambda>v. ''v'') 0 \<lparr>self_redis = RedisClient\<rparr> [PyInt 123] []
          \<lparr>db = Map.empty, ttl = Map.empty\<rparr>) = Inr (PyStr (uuid_str (uuid4 0)))
   \<and> Cache_get (uuid_str (uuid4 0)) None
        (snd (Cache_store (\<lambda>v. ''v'') 0 \<lparr>self_redis = RedisClient\<rparr> [PyInt 123] []
          \<lparr>db = Map.empty, ttl = Map.empty\<rparr>)) = Inr (PyBytes ''123'')
   \<and> Cache_get (uuid_str (uuid4 0)) None
        (snd (Cache_store (\<lambda>v. ''v'') 0 \<lparr>self_redis = RedisClient\<rparr> [PyInt 123] []
          \<lparr>db = Map.empty, ttl = Map.empty\<rparr>)) \<noteq> Inr (PyInt 123)"
proof -
  let ?c = "Cache_store (\<lambda>v. ''v'') 0 \<lparr>self_redis = RedisClient\<rparr> [PyInt 123] []
          \<lparr>db = Map.empty, ttl = Map.empty\<rparr>"
  have s: "self_redis \<lparr>self_redis = RedisClient\<rparr> = RedisClient" by simp
  have d: "str_int 123 = ''123''" by code_simp
  have c: "?c = (Inr (PyStr (uuid_str (uuid4 0))), snd ?c)"
    by (rule Cache_store_fresh [where data = "PyInt 123" and b = "''123''"]) (simp_all add: d)
  then have f: "fst ?c = Inr (PyStr (uuid_str (uuid4 0)))"
    by (simp add: prod_eq_iff)
  from s c obtain dd b where "bind_data [PyInt 123] [] = Inr dd" "redis_encode dd = Inr b"
    "redis_get (uuid_str (uuid4 0)) (snd ?c) = Inr (Some b)"
    by (rule Cache_store_returns)
  then have "Cache_get (uuid_str (uuid4 0)) None (snd ?c) = Inr (PyBytes ''123'')"
    by (auto simp: Cache_get_def d)
  with f show ?thesis by simp
qed

section \<open>Counting and recording a run of calls\<close>

text \<open>
  C2. On a Cache, from its construction, after \<open>N\<close> calls of the decorated \<open>store\<close> none
  of which raised (\<open>N\<close> is the length of \<open>calls\<close>), the counter under \<open>Cache.store\<close>
  is \<open>N\<close> (the key holds the decimal text of \<open>N\<close> once \<open>N > 0\<close>, and is absent, read
  as 0, before the first call), and the lists under \<open>Cache.store:inputs\<close> and
  \<open>Cache.store:outputs\<close> both have length \<open>N\<close>: the inputs are the texts of the
  positional arguments of the calls in order, the outputs are the returned keys.
\<close>

theorem store_calls_counts:
  assumes "Cache_init r0 = (self, r)"
    and "store_calls rp self calls r = (Inr keys, r')"
  shows "redis_int_value ''Cache.store'' r' = Inr (int (length calls))
    \<and> (calls \<noteq> [] \<longrightarrow>
         redis_get ''Cache.store'' r' = Inr (Some (str_int (int (length calls)))))
    \<and> (\<exists>xs ys. redis_lrange ''Cache.store:inputs'' 0 (- 1) r' = Inr xs
          \<and> redis_lrange ''Cache.store:outputs'' 0 (- 1) r' = Inr ys
          \<and> length xs = length calls \<and> length ys = length calls
          \<and> xs = map (\<lambda>c. str_tuple rp (fst (snd c))) calls
          \<and> map PyStr ys = keys)"
proof -
  from assms(1) have self: "self_redis self = RedisClient"
    and r: "r = \<lparr>db = Map.empty, ttl = Map.empty\<rparr>"
    by (auto simp: Cache_init_def redis_flushdb_def)
  from store_calls_effect [OF self assms(2), of 0 "[]" "[]"]
  show ?thesis by (simp add: r fresh_store comp_def)
qed

theorem store_calls_counts_witness:
  "Cache_init \<lparr>db = [''Cache.store'' \<mapsto> RString ''7''], ttl = Map.empty\<rparr>
     = (\<lparr>self_redis = RedisClient\<rparr>, \<lparr>db = Map.empty, ttl = Map.empty\<rparr>)
   \<and> fst (store_calls (\<lambda>v. ''v'') \<lparr>self_redis = RedisClient\<rparr>
          [(0, [PyBytes ''a''], []), (1, [PyInt 5], [])] \<lparr>db = Map.empty, ttl = Map.empty\<rparr>)
        = Inr [PyStr (uuid_str (uuid4 0)), PyStr (uuid_str (uuid4 1))]
   \<and> redis_int_value ''Cache.store''
        (snd (store_calls (\<lambda>v. ''v'') \<lparr>self_redis = RedisClient\<rparr>
          [(0, [PyBytes ''a''], []), (1, [PyInt 5], [])] \<lparr>db = Map.empty, ttl = Map.empty\<rparr>))
       = Inr 2
   \<and> (\<exists>xs ys. redis_lrange ''Cache.store:inputs'' 0 (- 1)
        (snd (store_calls (\<lambda>v. ''v'') \<lparr>self_redis = RedisClient\<rparr>
          [(0, [PyBytes ''a''], []), (1, [PyInt 5], [])] \<lparr>db = Map.empty, ttl = Map.empty\<rparr>))
         = Inr xs
       \<and> redis_lrange ''Cache.store:outputs'' 0 (- 1)
        (snd (store_calls (\<lambda>v. ''v'') \<lparr>self_redis = RedisClient\<rparr>
          [(0, [PyBytes ''a''], []), (1, [PyInt 5], [])] \<lparr>db = Map.empty, ttl = Map.empty\<rparr>))
         = Inr ys
       \<and> length xs = 2 \<and> length ys = 2)"
proof -
  define R where "R = snd (store_calls (\<lambda>v. ''v'') \<lparr>self_redis = RedisClient\<rparr>
          [(0, [PyBytes ''a''], []), (1, [PyInt 5], [])] \<lparr>db = Map.empty, ttl = Map.empty\<rparr>)"
  have i: "Cache_init \<lparr>db = [''Cache.store'' \<mapsto> RString ''7''], ttl = Map.empty\<rparr>
     = (\<lparr>self_redis = RedisClient\<rparr>, \<lparr>db = Map.empty, ttl = Map.empty\<rparr>)"
    by (simp add: Cache_init_def redis_flushdb_def)
  have f: "fst (store_calls (\<lambda>v. ''v'') \<lparr>self_redis = RedisClient\<rparr>
          [(0, [PyBytes ''a''], []), (1, [PyInt 5], [])] \<lparr>db = Map.empty, ttl = Map.empty\<rparr>)
        = Inr [PyStr (uuid_str (uuid4 0)), PyStr (uuid_str (uuid4 1))]"
    by code_simp
  have c: "store_calls (\<lambda>v. ''v'') \<lparr>self_redis = RedisClient\<rparr>
          [(0, [PyBytes ''a''], []), (1, [PyInt 5], [])] \<lparr>db = Map.empty, ttl = Map.empty\<rparr>
        = (Inr [PyStr (uuid_str (uuid4 0)), PyStr (uuid_str (uuid4 1))], R)"
    unfolding R_def using f by (simp only: prod_eq_iff fst_conv snd_conv simp_thms)
  from store_calls_counts [OF i c]
  have g: "redis_int_value ''Cache.store'' R = Inr 2
    \<and> (\<exists>xs ys. redis_lrange ''Cache.store:inputs'' 0 (- 1) R = Inr xs
       \<and> redis_lrange ''Cache.store:outputs'' 0 (- 1) R = Inr ys
       \<and> length xs = 2 \<and> length ys = 2)"
    by (auto simp: numeral_2_eq_2)
  from i f g [unfolded R_def] show ?thesis by blast
qed

section \<open>A call whose body raises\<close>

text \<open>
  C4. When a call of the decorated \<open>Cache.store\<close> raises the exception of the wrapped
  body (\<open>TypeError\<close> from binding the arguments, or \<open>DataError\<close> from the client for a
  value it cannot encode), the body raised in the state the call ends in, and in that
  state the counter under \<open>Cache.store\<close> is one more than before the call, the text of
  the positional arguments has been appended to \<open>Cache.store:inputs\<close>, and
  \<open>Cache.store:outputs\<close> is as before the call. So the inputs gain one entry over the
  outputs with every such call: one longer after the first raising call on lists of equal
  length, two longer after a second one in a row.
\<close>

theorem Cache_store_body_raises:
  assumes self: "self_redis self = RedisClient"
    and call: "Cache_store rp rnd self args kwargs r = (Inl e, r')"
    and e: "e = TypeError \<or> e = DataError"
  shows "call (store rnd) self args kwargs r' = (Inl e, r')
    \<and> (\<exists>xs n. redis_lrange ''Cache.store:inputs'' 0 (- 1) r = Inr xs
          \<and> redis_int_value ''Cache.store'' r = Inr n
          \<and> redis_lrange ''Cache.store:inputs'' 0 (- 1) r' = Inr (xs @ [str_tuple rp args])
          \<and> redis_int_value ''Cache.store'' r' = Inr (n + 1))
    \<and> db r' ''Cache.store:outputs'' = db r ''Cache.store:outputs''
    \<and> redis_lrange ''Cache.store:outputs'' 0 (- 1) r' = redis_lrange ''Cache.store:outputs'' 0 (- 1) r"
proof -
  from Cache_store_body_steps [OF self call e] obtain r1 m where
    s1: "redis_rpush ''Cache.store:inputs'' (PyStr (str_tuple rp args)) r = Inr r1"
    and s2: "redis_incr ''Cache.store'' r1 = Inr (m, r')"
    and body: "call (store rnd) self args kwargs r' = (Inl e, r')"
    by blast
  from s1 obtain xs where xs: "redis_lrange ''Cache.store:inputs'' 0 (- 1) r = Inr xs"
    and r1: "r1 = r\<lparr>db := (db r)(''Cache.store:inputs'' \<mapsto> RList (xs @ [str_tuple rp args]))\<rparr>"
    by (elim redis_rpush_Inr) auto
  from s2 obtain n where n1: "redis_int_value ''Cache.store'' r1 = Inr n"
    and r': "r' = r1\<lparr>db := (db r1)(''Cache.store'' \<mapsto> RString (str_int (n + 1)))\<rparr>"
    and n2: "redis_int_value ''Cache.store'' r' = Inr (n + 1)"
    by (elim redis_incr_Inr) auto
  have n: "redis_int_value ''Cache.store'' r = Inr n"
    using n1 by (simp add: r1 redis_int_value_def)
  have i: "redis_lrange ''Cache.store:inputs'' 0 (- 1) r' = Inr (xs @ [str_tuple rp args])"
    by (simp add: r' r1 redis_lrange_def list_range_all)
  have o: "db r' ''Cache.store:outputs'' = db r ''Cache.store:outputs''"
    by (simp add: r' r1)
  then have o': "redis_lrange ''Cache.store:outputs'' 0 (- 1) r'
      = redis_lrange ''Cache.store:outputs'' 0 (- 1) r"
    by (simp add: redis_lrange_def)
  from body xs n i n2 o o' show ?thesis by blast
qed

theorem Cache_store_body_raises_witness:
  "self_redis \<lparr>self_redis = RedisClient\<rparr> = RedisClient
   \<and> fst (Cache_store (\<lambda>v. ''v'') 0 \<lparr>self_redis = RedisClient\<rparr> [PyNone] []
          \<lparr>db = Map.empty, ttl = Map.empty\<rparr>) = Inl DataError
   \<and> redis_lrange ''Cache.store:inputs'' 0 (- 1)
        (snd (Cache_store (\<lambda>v. ''v'') 0 \<lparr>self_redis = RedisClient\<rparr> [PyNone] []
          \<lparr>db = Map.empty, ttl = Map.empty\<rparr>)) = Inr [str_tuple (\<lambda>v. ''v'') [PyNone]]
   \<and> redis_int_value ''Cache.store''
        (snd (Cache_store (\<lambda>v. ''v'') 0 \<lparr>self_redis = RedisClient\<rparr> [PyNone] []
          \<lparr>db = Map.empty, ttl = Map.empty\<rparr>)) = Inr 1
   \<and> redis_lrange ''Cache.store:outputs'' 0 (- 1)
        (snd (Cache_store (\<lambda>v. ''v'') 0 \<lparr>self_redis = RedisClient\<rparr> [PyNone] []
          \<lparr>db = Map.empty, ttl = Map.empty\<rparr>)) = Inr []"
proof -
  define R where "R = snd (Cache_store (\<lambda>v. ''v'') 0 \<lparr>self_redis = RedisClient\<rparr> [PyNone] []
          \<lparr>db = Map.empty, ttl = Map.empty\<rparr>)"
  have s: "self_redis \<lparr>self_redis = RedisClient\<rparr> = RedisClient" by simp
  have f: "fst (Cache_store (\<lambda>v. ''v'') 0 \<lparr>self_redis = RedisClient\<rparr> [PyNone] []
          \<lparr>db = Map.empty, ttl = Map.empty\<rparr>) = Inl DataError"
    by code_simp
  have c: "Cache_store (\<lambda>v. ''v'') 0 \<lparr>self_redis = RedisClient\<rparr> [PyNone] []
          \<lparr>db = Map.empty, ttl = Map.empty\<rparr> = (Inl DataError, R)"
    unfolding R_def using f by (simp only: prod_eq_iff fst_conv snd_conv simp_thms)
  from Cache_store_body_raises [OF s c]
  have g: "redis_lrange ''Cache.store:inputs'' 0 (- 1) R = Inr [str_tuple (\<lambda>v. ''v'') [PyNone]]
    \<and> redis_int_value ''Cache.store'' R = Inr 1
    \<and> redis_lrange ''Cache.store:outputs'' 0 (- 1) R = Inr []"
    by (auto simp: fresh_store)
  from s f g [unfolded R_def] show ?thesis by blast
qed

theorem Cache_store_raises_twice_counterexample:
  "fst (Cache_store (\<lambda>v. ''v'') 0 \<lparr>self_redis = RedisClient\<rparr> [PyNone] []
          \<lparr>db = Map.empty, ttl = Map.empty\<rparr>) = Inl DataError
   \<and> fst (Cache_store (\<lambda>v. ''v'') 1 \<lparr>self_redis = RedisClient\<rparr> [PyNone] []
        (snd (Cache_store (\<lambda>v. ''v'') 0 \<lparr>self_redis = RedisClient\<rparr> [PyNone] []
          \<lparr>db = Map.empty, ttl = Map.empty\<rparr>))) = Inl DataError
   \<and> redis_lrange ''Cache.store:inputs'' 0 (- 1)
        (snd (Cache_store (\<lambda>v. ''v'') 1 \<lparr>self_redis = RedisClient\<rparr> [PyNone] []
          (snd (Cache_store (\<lambda>v. ''v'') 0 \<lparr>self_redis = RedisClient\<rparr> [PyNone] []
            \<lparr>db = Map.empty, ttl = Map.empty\<rparr>)))) = Inr [''(v,)'', ''(v,)'']
   \<and> redis_lrange ''Cache.store:outputs'' 0 (- 1)
        (snd (Cache_store (\<lambda>v. ''v'') 1 \<lparr>self_redis = RedisClient\<rparr> [PyNone] []
          (snd (Cache_store (\<lambda>v. ''v'') 0 \<lparr>self_redis = RedisClient\<rparr> [PyNone] []
            \<lparr>db = Map.empty, ttl = Map.empty\<rparr>)))) = Inr []"
  by code_simp

section \<open>Keyword arguments under \<open>call_history\<close>\<close>

text \<open>
  C10. A call of an operation wrapped by \<open>call_history\<close>, on an instance with a Redis
  client and a readable inputs list, is the call of the wrapped operation with the same
  positional and keyword arguments, in the store where the inputs list has gained the
  entry \<open>str(args)\<close>, followed by the push of its return value. The recorded entry is
  the text of the positional tuple alone: the keyword arguments reach the wrapped
  operation unchanged and appear nowhere in the entry.
\<close>

theorem call_history_kwargs:
  assumes "self_redis self = RedisClient"
    and "redis_lrange (qualname m @ '':inputs'') 0 (- 1) r = Inr xs"
  shows "call (call_history rp m) self args kwargs r =
     (case call m self args kwargs
             (r\<lparr>db := (db r)(qualname m @ '':inputs'' \<mapsto> RList (xs @ [str_tuple rp args]))\<rparr>) of
        (Inl e, r2) \<Rightarrow> (Inl e, r2)
      | (Inr v, r2) \<Rightarrow>
          (case redis_rpush (qualname m @ '':outputs'') v r2 of
             Inl e \<Rightarrow> (Inl e, r2)
           | Inr r3 \<Rightarrow> (Inr v, r3)))"
proof -
  have "redis_rpush (qualname m @ '':inputs'') (PyStr (str_tuple rp args)) r
      = Inr (r\<lparr>db := (db r)(qualname m @ '':inputs'' \<mapsto> RList (xs @ [str_tuple rp args]))\<rparr>)"
    by (rule redis_rpush_ok [OF _ assms(2)]) simp
  with assms(1) show ?thesis
    by (simp add: call_history_def Let_def split: prod.splits sum.splits)
qed

theorem call_history_kwargs_witness:
  "self_redis \<lparr>self_redis = RedisClient\<rparr> = RedisClient
   \<and> redis_lrange (qualname (count_calls (store 0)) @ '':inputs'') 0 (- 1)
        \<lparr>db = Map.empty, ttl = Map.empty\<rparr> = Inr []
   \<and> call (call_history (\<lambda>v. ''v'') (count_calls (store 0))) \<lparr>self_redis = RedisClient\<rparr>
        [] [(''data'', PyBytes ''abc'')] \<lparr>db = Map.empty, ttl = Map.empty\<rparr> =
     (case call (count_calls (store 0)) \<lparr>self_redis = RedisClient\<rparr> [] [(''data'', PyBytes ''abc'')]
             (\<lparr>db = Map.empty, ttl = Map.empty\<rparr>
                \<lparr>db := (db \<lparr>db = Map.empty, ttl = Map.empty\<rparr>)
                   (qualname (count_calls (store 0)) @ '':inputs''
                      \<mapsto> RList ([] @ [str_tuple (\<lambda>v. ''v'') []]))\<rparr>) of
        (Inl e, r2) \<Rightarrow> (Inl e, r2)
      | (Inr v, r2) \<Rightarrow>
          (case redis_rpush (qualname (count_calls (store 0)) @ '':outputs'') v r2 of
             Inl e \<Rightarrow> (Inl e, r2)
           | Inr r3 \<Rightarrow> (Inr v, r3)))
   \<and> redis_lrange ''Cache.store:inputs'' 0 (- 1)
        (snd (call (call_history (\<lambda>v. ''v'') (count_calls (store 0))) \<lparr>self_redis = RedisClient\<rparr>
           [] [(''data'', PyBytes ''abc'')] \<lparr>db = Map.empty, ttl = Map.empty\<rparr>)) = Inr [''()'']
   \<and> redis_get (uuid_str (uuid4 0))
        (snd (call (call_history (\<lambda>v. ''v'') (count_calls (store 0))) \<lparr>self_redis = RedisClient\<rparr>
           [] [(''data'', PyBytes ''abc'')] \<lparr>db = Map.empty, ttl = Map.empty\<rparr>)) = Inr (Some ''abc'')"
proof -
  have h1: "self_redis \<lparr>self_redis = RedisClient\<rparr> = RedisClient" by simp
  have h2: "redis_lrange (qualname (count_calls (store 0)) @ '':inputs'') 0 (- 1)
        \<lparr>db = Map.empty, ttl = Map.empty\<rparr> = Inr []"
    by (rule fresh_store(1))
  note eq = call_history_kwargs [OF h1 h2, of "\<lambda>v. ''v''" "[]" "[(''data'', PyBytes ''abc'')]"]
  have e1: "redis_lrange ''Cache.store:inputs'' 0 (- 1)
        (snd (call (call_history (\<lambda>v. ''v'') (count_calls (store 0))) \<lparr>self_redis = RedisClient\<rparr>
           [] [(''data'', PyBytes ''abc'')] \<lparr>db = Map.empty, ttl = Map.empty\<rparr>)) = Inr [''()'']"
    by code_simp
  have e2: "redis_get (uuid_str (uuid4 0))
        (snd (call (call_history (\<lambda>v. ''v'') (count_calls (store 0))) \<lparr>self_redis = RedisClient\<rparr>
           [] [(''data'', PyBytes ''abc'')] \<lparr>db = Map.empty, ttl = Map.empty\<rparr>)) = Inr (Some ''abc'')"
    by code_simp
  from h1 h2 eq e1 e2 show ?thesis by blast
qed

section \<open>\<open>replay\<close> without a Cache behind its argument\<close>

text \<open>
  C8. \<open>replay\<close> given \<open>None\<close>, a function that is not bound to an object, or a method
  bound to an object whose \<open>_redis\<close> is not a Redis client, returns without printing,
  without raising, and leaves the store as it was. A method that is bound to a live
  Cache is replayed whether it is instrumented or not: for \<open>Cache.get\<close> of a new Cache
  the header line \<open>Cache.get was called 0 times:\<close> is printed.
\<close>

theorem replay_no_instance:
  assumes "fn = NoneRef \<or> (\<exists>qn. fn = Function qn)
    \<or> (\<exists>owner qn. fn = BoundMethod owner qn \<and> self_redis owner \<noteq> RedisClient)"
  shows "replay pint rp fn r out = (Inr (), r, out)"
  using assms by (auto simp: replay_def)

theorem replay_no_instance_witness:
  "(BoundMethod \<lparr>self_redis = NotRedis\<rparr> ''Cache.store'' = NoneRef
      \<or> (\<exists>qn. BoundMethod \<lparr>self_redis = NotRedis\<rparr> ''Cache.store'' = Function qn)
      \<or> (\<exists>owner qn. BoundMethod \<lparr>self_redis = NotRedis\<rparr> ''Cache.store'' = BoundMethod owner qn
            \<and> self_redis owner \<noteq> RedisClient))
   \<and> replay (\<lambda>b. None) (\<lambda>v. ''v'') (BoundMethod \<lparr>self_redis = NotRedis\<rparr> ''Cache.store'')
        \<lparr>db = [''Cache.store'' \<mapsto> RString ''3''], ttl = Map.empty\<rparr> [''earlier output'']
      = (Inr (), \<lparr>db = [''Cache.store'' \<mapsto> RString ''3''], ttl = Map.empty\<rparr>, [''earlier output''])"
proof -
  have h: "BoundMethod \<lparr>self_redis = NotRedis\<rparr> ''Cache.store'' = NoneRef
      \<or> (\<exists>qn. BoundMethod \<lparr>self_redis = NotRedis\<rparr> ''Cache.store'' = Function qn)
      \<or> (\<exists>owner qn. BoundMethod \<lparr>self_redis = NotRedis\<rparr> ''Cache.store'' = BoundMethod owner qn
            \<and> self_redis owner \<noteq> RedisClient)"
    by simp
  from replay_no_instance [OF h] h show ?thesis by blast
qed

theorem replay_uninstrumented_method_counterexample:
  "fst (replay (\<lambda>b. None) (\<lambda>v. ''v'') (BoundMethod (fst (Cache_init \<lparr>db = Map.empty, ttl = Map.empty\<rparr>)) ''Cache.get'')
        (snd (Cache_init \<lparr>db = Map.empty, ttl = Map.empty\<rparr>)) []) = Inr ()
   \<and> snd (snd (replay (\<lambda>b. None) (\<lambda>v. ''v'') (BoundMethod (fst (Cache_init \<lparr>db = Map.empty, ttl = Map.empty\<rparr>)) ''Cache.get'')
        (snd (Cache_init \<lparr>db = Map.empty, ttl = Map.empty\<rparr>)) [])) = [''Cache.get was called 0 times:'']"
  by code_simp

section \<open>The page cache when the fetch raises\<close>

text \<open>
  C6. When the invoker of \<open>cache_response\<close> reaches the wrapped fetch (the counter was
  incremented and no cached text was found) and the fetch raises, the invoker raises the
  same exception and ends in the store as the increment left it: the entry and the time
  to live under \<open>result:{url}\<close> are as before the call, and the counter under
  \<open>count:{url}\<close> is one more than before.
\<close>

theorem cache_response_fetch_raises:
  assumes incr: "redis_incr (''count:'' @ url) r = Inr (n, r1)"
    and get: "redis_get (''result:'' @ url) r1 = Inr c"
    and miss: "c = None \<or> c = Some []"
    and fetch: "method url w = (Inl e, w1)"
  shows "cache_response method url r w = (Inl e, r1, w1)
    \<and> db r1 (''result:'' @ url) = db r (''result:'' @ url)
    \<and> ttl r1 (''result:'' @ url) = ttl r (''result:'' @ url)
    \<and> (\<exists>n0. redis_int_value (''count:'' @ url) r = Inr n0
          \<and> redis_int_value (''count:'' @ url) r1 = Inr (n0 + 1))"
proof -
  from miss incr get fetch have 1: "cache_response method url r w = (Inl e, r1, w1)"
    by (auto simp: cache_response_def)
  have "''result:'' @ url \<noteq> ''count:'' @ url" by simp
  from redis_incr_frame [OF incr this]
  have 2: "db r1 (''result:'' @ url) = db r (''result:'' @ url)
    \<and> ttl r1 (''result:'' @ url) = ttl r (''result:'' @ url)" .
  from incr obtain n0 where "redis_int_value (''count:'' @ url) r = Inr n0"
    "redis_int_value (''count:'' @ url) r1 = Inr (n0 + 1)"
    by (rule redis_incr_Inr)
  with 1 2 show ?thesis by blast
qed

theorem cache_response_fetch_raises_witness:
  "fst (get_page (\<lambda>url w. (Inl ''timed out'', w @ [url])) ''http://a''
          \<lparr>db = Map.empty, ttl = Map.empty\<rparr> []) = Inl (RequestException ''timed out'')
   \<and> db (fst (snd (get_page (\<lambda>url w. (Inl ''timed out'', w @ [url])) ''http://a''
          \<lparr>db = Map.empty, ttl = Map.empty\<rparr> []))) (''result:'' @ ''http://a'') = None
   \<and> redis_int_value (''count:'' @ ''http://a'')
        (fst (snd (get_page (\<lambda>url w. (Inl ''timed out'', w @ [url])) ''http://a''
          \<lparr>db = Map.empty, ttl = Map.empty\<rparr> []))) = Inr 1"
proof -
  let ?r = "\<lparr>db = Map.empty, ttl = Map.empty\<rparr>"
  let ?m = "\<lambda>url w. case (Inl ''timed out'', w @ [url]) of
         (Inl x, w1) \<Rightarrow> (Inl (RequestException x), w1)
       | (Inr body, w1 :: string list) \<Rightarrow> (Inr (PyStr body), w1)"
  have n: "(0 :: int) \<noteq> 2 ^ 63 - 1" by simp
  note i = redis_incr_ok [OF fresh_store(2) n, of "''count:'' @ ''http://a''"]
  have g: "redis_get (''result:'' @ ''http://a'')
      (?r\<lparr>db := (db ?r)(''count:'' @ ''http://a'' \<mapsto> RString (str_int (0 + 1)))\<rparr>) = Inr None"
    by (simp add: redis_get_def)
  have m: "None = None \<or> None = Some ([] :: string)" by simp
  have f: "?m ''http://a'' [] = (Inl (RequestException ''timed out''), [''http://a''])" by simp
  from cache_response_fetch_raises [of _ _ _ _ _ ?m, OF i g m f]
  show ?thesis by (simp add: get_page_def fresh_store)
qed

section \<open>The page cache on a cached empty page\<close>

text \<open>
  C3. The invoker tests the cached result for truth (\<open>if result:\<close>), and empty bytes are
  false. With a server whose response body is empty, the first \<open>get_page\<close> of a URL
  fetches once and caches \<open>b''\<close> under \<open>result:{url}\<close> for 10 seconds; the second call
  finds that entry and fetches again (the fetch log holds the URL twice). With a
  non-empty body the second call performs no fetch (the log holds the URL once).
\<close>

theorem get_page_empty_body_fetched_again:
  "fst (get_page (\<lambda>url w. (Inr '''', w @ [url])) ''http://a''
          \<lparr>db = Map.empty, ttl = Map.empty\<rparr> []) = Inr (PyStr '''')
   \<and> redis_get ''result:http://a''
        (fst (snd (get_page (\<lambda>url w. (Inr '''', w @ [url])) ''http://a''
          \<lparr>db = Map.empty, ttl = Map.empty\<rparr> []))) = Inr (Some '''')
   \<and> ttl (fst (snd (get_page (\<lambda>url w. (Inr '''', w @ [url])) ''http://a''
          \<lparr>db = Map.empty, ttl = Map.empty\<rparr> []))) ''result:http://a'' = Some 10
   \<and> snd (snd (get_page (\<lambda>url w. (Inr '''', w @ [url])) ''http://a''
          \<lparr>db = Map.empty, ttl = Map.empty\<rparr> [])) = [''http://a'']
   \<and> fst (get_page (\<lambda>url w. (Inr '''', w @ [url])) ''http://a''
        (fst (snd (get_page (\<lambda>url w. (Inr '''', w @ [url])) ''http://a''
          \<lparr>db = Map.empty, ttl = Map.empty\<rparr> []))) [''http://a'']) = Inr (PyStr '''')
   \<and> snd (snd (get_page (\<lambda>url w. (Inr '''', w @ [url])) ''http://a''
        (fst (snd (get_page (\<lambda>url w. (Inr '''', w @ [url])) ''http://a''
          \<lparr>db = Map.empty, ttl = Map.empty\<rparr> []))) [''http://a''])) = [''http://a'', ''http://a'']
   \<and> snd (snd (get_page (\<lambda>url w. (Inr ''page'', w @ [url])) ''http://a''
        (fst (snd (get_page (\<lambda>url w. (Inr ''page'', w @ [url])) ''http://a''
          \<lparr>db = Map.empty, ttl = Map.empty\<rparr> []))) [''http://a''])) = [''http://a'']"
  by code_simp

end
